theory Spec2Isabelle
  imports Main "HOL-Library.Stream" "HOL-Library.Multiset" "HOL-Library.Sublist"
begin

section \<open>Support Hub: tickets, comments and their validation\<close>

text \<open>
  A shallow embedding of the ticket domain of the Support Hub application:
  the models of \<^verbatim>\<open>tickets/models.py\<close> (\<^verbatim>\<open>Team\<close>, \<^verbatim>\<open>TicketCategory\<close>,
  \<^verbatim>\<open>Ticket\<close>, \<^verbatim>\<open>Comment\<close>), the creation form of \<^verbatim>\<open>tickets/forms.py\<close> and the
  \<^verbatim>\<open>team\<close> reference of users added by \<^verbatim>\<open>accounts/migrations/0002_customuser_team.py\<close>.

  Text is a \<open>string\<close> (one \<open>char\<close> per character of the Python \<^verbatim>\<open>str\<close>), instants are
  microseconds since the epoch in UTC (\<open>nat\<close>), primary keys are \<open>nat\<close>.
\<close>

subsection \<open>Text helpers\<close>

text \<open>
  Python's \<^verbatim>\<open>str.strip()\<close>: leading and trailing whitespace is dropped. Of the
  characters a \<open>char\<close> holds, whitespace is the space, the tab, the line feed, the vertical
  tab, the form feed, the carriage return, the four separators with codes 28 to 31, the
  next line (133) and the no-break space (160).
\<close>

definition is_space :: "char \<Rightarrow> bool" where
  "is_space c =
     (c \<in> {CHR '' '', CHR 0x09, CHR 0x0A, CHR 0x0B, CHR 0x0C, CHR 0x0D,
           CHR 0x1C, CHR 0x1D, CHR 0x1E, CHR 0x1F, CHR 0x85, CHR 0xA0})"

definition strip :: "string \<Rightarrow> string" where
  "strip s = rev (dropWhile is_space (rev (dropWhile is_space s)))"

text \<open>
  Modelled from the spec: \<^verbatim>\<open>strip_tags\<close> of \<^verbatim>\<open>django.utils.html\<close>, which
  \<^verbatim>\<open>Comment.body_without_tags\<close> calls, is library code outside the repository. The spec
  (4.4) says it "removes all markup tags from a rich-text body". A tag is read here as a
  \<open><\<close>, the characters up to the next \<open>>\<close>, and that \<open>>\<close>; a \<open><\<close> that no \<open>>\<close> follows
  opens no tag and is text.
\<close>

function strip_tags :: "string \<Rightarrow> string" where
  "strip_tags [] = []"
| "strip_tags (c # cs) =
     (if c = CHR ''<'' \<and> CHR ''>'' \<in> set cs
      then strip_tags (tl (dropWhile (\<lambda>x. x \<noteq> CHR ''>'') cs))
      else c # strip_tags cs)"
  by pat_completeness auto
termination
proof (relation "measure length")
  show "wf (measure length)" by simp
next
  fix c :: char and cs :: string
  have "length (tl (dropWhile (\<lambda>x. x \<noteq> CHR ''>'') cs)) \<le> length cs"
    using length_dropWhile_le [of "\<lambda>x. x \<noteq> CHR ''>''" cs] by simp
  then show "(tl (dropWhile (\<lambda>x. x \<noteq> CHR ''>'') cs), c # cs) \<in> measure length"
    by simp
next
  fix c :: char and cs :: string
  show "(cs, c # cs) \<in> measure length" by simp
qed

text \<open>Whether a text still holds a tag: some \<open><\<close> with a \<open>>\<close> after it.\<close>

fun has_tag :: "string \<Rightarrow> bool" where
  "has_tag [] = False"
| "has_tag (c # cs) = ((c = CHR ''<'' \<and> CHR ''>'' \<in> set cs) \<or> has_tag cs)"

subsection \<open>Errors\<close>

text \<open>
  The rules a field value can violate, and the failures of an operation. \<open>Required\<close> is
  a required field left out, \<open>InvalidChoice\<close> a value that is not among the choices of
  its field. A \<open>ValidationError\<close> carries every violated rule, as the error of a Django
  form or of \<^verbatim>\<open>full_clean\<close> does; \<open>NotFoundError\<close> is a lookup of an absent row, \<open>StorageError\<close> a
  statement the database refuses, \<open>ValueError\<close> a \<^verbatim>\<open>save\<close> that cannot be an update.
\<close>

datatype violation =
  EmptyOrTooShort | TitleLengthOutOfRange | InvalidImageType | ImageTooLarge | InvalidChoice
| Required

datatype error =
  ValidationError "violation list" | NotFoundError | StorageError | ValueError

definition fails_with :: "violation \<Rightarrow> error + 'a \<Rightarrow> bool" where
  "fails_with v r = (case r of Inl (ValidationError vs) \<Rightarrow> v \<in> set vs | _ \<Rightarrow> False)"

definition raise_if_any :: "violation list \<Rightarrow> error + unit" where
  "raise_if_any vs = (if vs = [] then Inr () else Inl (ValidationError vs))"

subsection \<open>Validators\<close>

text \<open>
  Modelled from the spec: \<^verbatim>\<open>tickets/validators.py\<close>, from which \<^verbatim>\<open>models.py\<close> imports
  \<^verbatim>\<open>textfield_not_empty\<close> and \<^verbatim>\<open>validate_image\<close>, is not among the sources. The spec
  (4.1, 3) has the text validator strip leading and trailing whitespace and fail with
  \<open>EmptyOrTooShort\<close> when what is left is empty or shorter than the minimum length, the
  length being that "after HTML-tag removal"; the validator is attached to the field and
  receives the raw text, so it removes the tags itself. The image validator fails with
  \<open>InvalidImageType\<close> unless the file is a jpg or a png and with \<open>ImageTooLarge\<close> when its
  size exceeds 3 * 1024 * 1024 bytes; the spec states each rule for every file, so both
  are reported when both are violated.
\<close>

definition textfield_not_empty_violations :: "nat \<Rightarrow> string \<Rightarrow> violation list" where
  "textfield_not_empty_violations min_length value =
     (let text = strip (strip_tags value)
      in if length text < min_length \<or> text = [] then [EmptyOrTooShort] else [])"

definition textfield_not_empty :: "nat \<Rightarrow> string \<Rightarrow> error + unit" where
  "textfield_not_empty min_length value =
     raise_if_any (textfield_not_empty_violations min_length value)"

record ImageFile =
  image_format :: string
  image_size :: nat

definition limit_bytes :: nat where
  "limit_bytes = 3 * 1024 * 1024"

definition validate_image_violations :: "ImageFile \<Rightarrow> violation list" where
  "validate_image_violations f =
     (if image_format f \<in> {''jpg'', ''png''} then [] else [InvalidImageType]) @
     (if image_size f > limit_bytes then [ImageTooLarge] else [])"

definition validate_image :: "ImageFile \<Rightarrow> error + unit" where
  "validate_image f = raise_if_any (validate_image_violations f)"

subsection \<open>The models\<close>

text \<open>
  \<^verbatim>\<open>STATUS\<close>, \<^verbatim>\<open>TYPE\<close> and \<^verbatim>\<open>PRIORITY\<close> of \<^verbatim>\<open>Ticket\<close>: the stored values, in the order of
  declaration. The three fields are \<^verbatim>\<open>CharField\<close>s, so a value is a string.
\<close>

definition Ticket_STATUS :: "string list" where
  "Ticket_STATUS = [''open'', ''inprogress'', ''onhold'', ''closed'']"

definition Ticket_TYPE :: "string list" where
  "Ticket_TYPE = [''request'', ''incident'']"

definition Ticket_PRIORITY :: "string list" where
  "Ticket_PRIORITY = [''low'', ''medium'', ''high'']"

record Team =
  team_name :: string

record TicketCategory =
  category_name :: string

text \<open>A user, as far as the ticket domain sees one: the \<^verbatim>\<open>team\<close> reference of the migration.\<close>

record CustomUser =
  team :: "nat option"

record Ticket =
  author :: nat
  title :: string
  description :: string
  ticket_image :: "ImageFile option"
  status :: string
  type :: string
  priority :: string
  created_on :: nat
  updated_on :: nat
  category :: "nat option"
  assigned_team :: "nat option"
  assigned_technician :: "nat option"

record Comment =
  comment_ticket :: nat
  comment_author :: "nat option"
  body :: string
  comment_created_on :: nat

text \<open>
  A table is the list of its rows, each with its primary key, in the order the database
  holds and scans them. The database is the one \<^verbatim>\<open>settings.py\<close> selects: SQLite in
  development, otherwise the one of \<^verbatim>\<open>DATABASE_URL\<close>, PostgreSQL. The clock is the
  sequence of the readings still to come.
\<close>

type_synonym 'a table = "(nat \<times> 'a) list"

datatype engine = SQLite | PostgreSQL

record World =
  engine :: engine
  users :: "CustomUser table"
  teams :: "Team table"
  categories :: "TicketCategory table"
  tickets :: "Ticket table"
  comments :: "Comment table"
  ticket_seq :: nat
  clock :: "nat stream"

definition now :: "World \<Rightarrow> nat \<times> World" where
  "now w = (shd (clock w), w\<lparr>clock := stl (clock w)\<rparr>)"

text \<open>
  The keys of the rows a condition selects, and the update of the rows with given keys
  (\<^verbatim>\<open>UPDATE ... WHERE id IN (...)\<close>). SQLite rewrites a row where it stands; PostgreSQL
  writes the new version of a row behind the rows it holds, so the updated rows come
  last in a later scan, in the order they had. A key with no row changes nothing.
\<close>

definition keys_where :: "('a \<Rightarrow> bool) \<Rightarrow> 'a table \<Rightarrow> nat list" where
  "keys_where P rows = map fst (filter (\<lambda>(k, v). P v) rows)"

definition update_pks :: "engine \<Rightarrow> nat list \<Rightarrow> ('a \<Rightarrow> 'a) \<Rightarrow> 'a table \<Rightarrow> 'a table" where
  "update_pks e pks f rows =
     (case e of
        SQLite \<Rightarrow> map (\<lambda>(k, v). if k \<in> set pks then (k, f v) else (k, v)) rows
      | PostgreSQL \<Rightarrow>
          filter (\<lambda>(k, v). k \<notin> set pks) rows @
          map (\<lambda>(k, v). (k, f v)) (filter (\<lambda>(k, v). k \<in> set pks) rows))"

definition delete_row :: "nat \<Rightarrow> 'a table \<Rightarrow> 'a table" where
  "delete_row k rows = filter (\<lambda>(k', v). k' \<noteq> k) rows"

text \<open>\<^verbatim>\<open>Comment.body_without_tags\<close>: a value computed from the body; nothing is stored.\<close>

definition body_without_tags :: "Comment \<Rightarrow> string" where
  "body_without_tags self = strip_tags (body self)"

subsection \<open>Creating a ticket\<close>

text \<open>
  The fields of \<^verbatim>\<open>StaffTicketCreationForm\<close> (\<^verbatim>\<open>Meta.fields\<close>), in their order. The form
  has no field for the status, the priority, the team or the technician of a ticket.
\<close>

record StaffTicketCreationForm =
  form_type :: string
  form_category :: "nat option"
  form_title :: string
  form_description :: string
  form_ticket_image :: "ImageFile option"

text \<open>
  The checks the form makes of its fields, which are those the field declarations of
  \<^verbatim>\<open>Ticket\<close> attach. \<^verbatim>\<open>type\<close> has \<^verbatim>\<open>choices=TYPE\<close>. \<^verbatim>\<open>category\<close> has \<^verbatim>\<open>blank=False\<close>, so
  the form requires it, and it must be the key of a category there is. The two text
  fields are stripped of leading and trailing whitespace before they are checked and
  stored: \<^verbatim>\<open>title\<close> has \<^verbatim>\<open>max_length=50\<close> and \<^verbatim>\<open>MinLengthValidator(10)\<close>, \<^verbatim>\<open>description\<close>
  has \<^verbatim>\<open>textfield_not_empty(min_length=20)\<close>; a text left out is reported under the rule
  of its length. \<^verbatim>\<open>ticket_image\<close>, which may be left out (\<^verbatim>\<open>blank=True\<close>), has
  \<^verbatim>\<open>validate_image\<close>. Every field is checked and every violation reported.
\<close>

definition title_violations :: "string \<Rightarrow> violation list" where
  "title_violations s = (if length s < 10 \<or> 50 < length s then [TitleLengthOutOfRange] else [])"

definition choice_violations :: "string list \<Rightarrow> string \<Rightarrow> violation list" where
  "choice_violations choices v = (if v \<in> set choices then [] else [InvalidChoice])"

definition category_violations :: "World \<Rightarrow> nat option \<Rightarrow> violation list" where
  "category_violations w c =
     (case c of
        None \<Rightarrow> [Required]
      | Some k \<Rightarrow> if map_of (categories w) k = None then [InvalidChoice] else [])"

definition form_violations :: "World \<Rightarrow> StaffTicketCreationForm \<Rightarrow> violation list" where
  "form_violations w f =
     choice_violations Ticket_TYPE (form_type f) @
     category_violations w (form_category f) @
     title_violations (strip (form_title f)) @
     textfield_not_empty_violations 20 (strip (form_description f)) @
     (case form_ticket_image f of None \<Rightarrow> [] | Some i \<Rightarrow> validate_image_violations i)"

text \<open>
  Modelled from the spec: the view that runs the form and saves the ticket is not among
  the sources, so the course of \<open>createTicket\<close> follows 4.2 of the spec: it validates,
  fails without writing when a rule is violated, and otherwise stores the ticket for the
  given author. The checks are those of the form, and what is stored follows the field
  declarations of the source: the cleaned values of the form; for \<^verbatim>\<open>status\<close>,
  \<^verbatim>\<open>priority\<close>, \<^verbatim>\<open>assigned_team\<close> and \<^verbatim>\<open>assigned_technician\<close>, which the form does not
  have, their defaults (\<^verbatim>\<open>STATUS.open\<close>, \<^verbatim>\<open>PRIORITY.low\<close>, null); \<^verbatim>\<open>created_on\<close>
  (\<^verbatim>\<open>auto_now_add=True\<close>) and \<^verbatim>\<open>updated_on\<close> (\<^verbatim>\<open>auto_now=True\<close>) are stamped by the save,
  each field reading the clock for itself when its value is prepared, in the order of
  declaration. The author is a foreign key to the users, so the database refuses the row
  of an author it does not hold.
\<close>

definition createTicket ::
  "nat \<Rightarrow> StaffTicketCreationForm \<Rightarrow> World \<Rightarrow> (error + nat \<times> Ticket) \<times> World" where
  "createTicket user f w =
     (if form_violations w f \<noteq> [] then (Inl (ValidationError (form_violations w f)), w)
      else
        let (t_created, w1) = now w;
            (t_updated, w2) = now w1;
            self = \<lparr>author = user, title = strip (form_title f),
                    description = strip (form_description f),
                    ticket_image = form_ticket_image f, status = ''open'', type = form_type f,
                    priority = ''low'', created_on = t_created, updated_on = t_updated,
                    category = form_category f, assigned_team = None,
                    assigned_technician = None\<rparr>;
            pk = ticket_seq w2
        in if map_of (users w2) user = None then (Inl StorageError, w2)
           else (Inr (pk, self),
                 w2\<lparr>tickets := tickets w2 @ [(pk, self)], ticket_seq := Suc pk\<rparr>))"

subsection \<open>Changing a ticket\<close>

text \<open>
  \<^verbatim>\<open>Ticket.get_time_now\<close> reads the clock. \<^verbatim>\<open>Ticket.set_ticket_updated_now\<close> assigns that
  reading to \<^verbatim>\<open>updated_on\<close> of the instance and calls
  \<^verbatim>\<open>save(update_fields=["updated_on"])\<close>. An instance is its primary key, absent while it
  is unsaved, and its field values, which need not be those of its row. The save refuses
  an instance without a key; it prepares the value of the one named field, which being
  \<^verbatim>\<open>auto_now\<close> reads the clock again and assigns the instance, and updates that column of
  the row with the key; a key with no row is an error.
\<close>

type_synonym TicketInstance = "nat option \<times> Ticket"

definition get_time_now :: "World \<Rightarrow> nat \<times> World" where
  "get_time_now w = now w"

definition save_updated_on ::
  "TicketInstance \<Rightarrow> World \<Rightarrow> (error + unit) \<times> TicketInstance \<times> World" where
  "save_updated_on inst w =
     (case fst inst of
        None \<Rightarrow> (Inl ValueError, inst, w)
      | Some pk \<Rightarrow>
          let (t, w1) = now w;
              inst1 = (Some pk, (snd inst)\<lparr>updated_on := t\<rparr>)
          in if map_of (tickets w1) pk = None then (Inl StorageError, inst1, w1)
             else (Inr (), inst1,
                   w1\<lparr>tickets :=
                     update_pks (engine w1) [pk] (\<lambda>row. row\<lparr>updated_on := t\<rparr>) (tickets w1)\<rparr>))"

definition set_ticket_updated_now ::
  "TicketInstance \<Rightarrow> World \<Rightarrow> (error + unit) \<times> TicketInstance \<times> World" where
  "set_ticket_updated_now inst w =
     (let (t, w1) = get_time_now w
      in save_updated_on (fst inst, (snd inst)\<lparr>updated_on := t\<rparr>) w1)"

text \<open>
  Modelled from the spec: the view that changes the status is not among the sources.
  By 4.2 of the spec any of the four values may be set, whatever the present one, and
  the operation refreshes \<^verbatim>\<open>updated_on\<close> and persists that field and the status only;
  a value outside \<^verbatim>\<open>STATUS\<close> is refused by the \<^verbatim>\<open>choices\<close> of the field.
\<close>

definition updateStatus :: "nat \<Rightarrow> string \<Rightarrow> World \<Rightarrow> (error + nat \<times> Ticket) \<times> World" where
  "updateStatus pk newStatus w =
     (case map_of (tickets w) pk of
        None \<Rightarrow> (Inl NotFoundError, w)
      | Some row \<Rightarrow>
          if choice_violations Ticket_STATUS newStatus \<noteq> []
          then (Inl (ValidationError (choice_violations Ticket_STATUS newStatus)), w)
          else
            let (t, w1) = now w
            in (Inr (pk, row\<lparr>status := newStatus, updated_on := t\<rparr>),
                w1\<lparr>tickets :=
                  update_pks (engine w1) [pk] (\<lambda>r. r\<lparr>status := newStatus, updated_on := t\<rparr>)
                    (tickets w1)\<rparr>))"

subsection \<open>Deleting what tickets refer to\<close>

text \<open>
  The \<^verbatim>\<open>on_delete\<close> of each foreign key. A team is referred to by
  \<^verbatim>\<open>Ticket.assigned_team\<close> and by the \<^verbatim>\<open>team\<close> of a user, a category by
  \<^verbatim>\<open>Ticket.category\<close>, all \<^verbatim>\<open>SET_NULL\<close>. A user is referred to by \<^verbatim>\<open>Ticket.author\<close>
  (\<^verbatim>\<open>CASCADE\<close>), by \<^verbatim>\<open>Ticket.assigned_technician\<close> and \<^verbatim>\<open>Comment.author\<close> (\<^verbatim>\<open>SET_NULL\<close>);
  a comment goes with its ticket (\<^verbatim>\<open>Comment.ticket\<close>, \<^verbatim>\<open>CASCADE\<close>). The deletion collects
  the rows that refer to the deleted one; setting their reference to null is an update
  of that column of the rows with the collected keys: it saves no instance and stamps
  nothing.
\<close>

definition Team_delete :: "nat \<Rightarrow> World \<Rightarrow> World" where
  "Team_delete pk w =
     w\<lparr>tickets :=
         update_pks (engine w) (keys_where (\<lambda>t. assigned_team t = Some pk) (tickets w))
           (\<lambda>t. t\<lparr>assigned_team := None\<rparr>) (tickets w),
       users :=
         update_pks (engine w) (keys_where (\<lambda>u. team u = Some pk) (users w))
           (\<lambda>u. u\<lparr>team := None\<rparr>) (users w),
       teams := delete_row pk (teams w)\<rparr>"

definition TicketCategory_delete :: "nat \<Rightarrow> World \<Rightarrow> World" where
  "TicketCategory_delete pk w =
     w\<lparr>tickets :=
         update_pks (engine w) (keys_where (\<lambda>t. category t = Some pk) (tickets w))
           (\<lambda>t. t\<lparr>category := None\<rparr>) (tickets w),
       categories := delete_row pk (categories w)\<rparr>"

definition authored_by :: "nat \<Rightarrow> Ticket table \<Rightarrow> nat list" where
  "authored_by pk rows = keys_where (\<lambda>t. author t = pk) rows"

definition User_delete :: "nat \<Rightarrow> World \<Rightarrow> World" where
  "User_delete pk w =
     w\<lparr>comments :=
         update_pks (engine w) (keys_where (\<lambda>c. comment_author c = Some pk) (comments w))
           (\<lambda>c. c\<lparr>comment_author := None\<rparr>)
           (filter (\<lambda>(k, c). comment_ticket c \<notin> set (authored_by pk (tickets w))) (comments w)),
       tickets :=
         update_pks (engine w) (keys_where (\<lambda>t. assigned_technician t = Some pk) (tickets w))
           (\<lambda>t. t\<lparr>assigned_technician := None\<rparr>)
           (filter (\<lambda>(k, t). author t \<noteq> pk) (tickets w)),
       users := delete_row pk (users w)\<rparr>"

subsection \<open>Queries\<close>

text \<open>
  \<^verbatim>\<open>Ticket.Meta.ordering\<close> is \<^verbatim>\<open>("-updated_on",)\<close>: the tickets are listed by
  \<^verbatim>\<open>updated_on\<close>, latest first. It names no second key: the rows of one instant come as
  the database gives them, here in the order it holds them. \<^verbatim>\<open>Comment\<close> declares no
  ordering: the comments of a ticket (\<^verbatim>\<open>related_name="comments"\<close>) come as the database
  holds them. A ticket is fetched by its primary key.
\<close>

definition listTickets :: "World \<Rightarrow> Ticket table" where
  "listTickets w = sort_key (\<lambda>(k, t). - int (updated_on t)) (tickets w)"

definition listComments :: "nat \<Rightarrow> World \<Rightarrow> Comment table" where
  "listComments ticket_pk w = filter (\<lambda>(k, c). comment_ticket c = ticket_pk) (comments w)"

definition getTicket :: "nat \<Rightarrow> World \<Rightarrow> error + Ticket" where
  "getTicket pk w = (case map_of (tickets w) pk of None \<Rightarrow> Inl NotFoundError | Some t \<Rightarrow> Inr t)"

subsection \<open>Runs of operations\<close>

text \<open>
  The operations that write, and a sequence of them applied in turn. A failed operation
  leaves the world as the failure left it, and the run goes on.
\<close>

datatype operation =
  CreateTicket nat StaffTicketCreationForm
| UpdateStatus nat string
| SetTicketUpdatedNow TicketInstance
| DeleteTeam nat
| DeleteCategory nat
| DeleteUser nat

fun apply_operation :: "operation \<Rightarrow> World \<Rightarrow> World" where
  "apply_operation (CreateTicket user f) w = snd (createTicket user f w)"
| "apply_operation (UpdateStatus pk s) w = snd (updateStatus pk s w)"
| "apply_operation (SetTicketUpdatedNow inst) w = snd (snd (set_ticket_updated_now inst w))"
| "apply_operation (DeleteTeam pk) w = Team_delete pk w"
| "apply_operation (DeleteCategory pk) w = TicketCategory_delete pk w"
| "apply_operation (DeleteUser pk) w = User_delete pk w"

fun run :: "operation list \<Rightarrow> World \<Rightarrow> World" where
  "run [] w = w"
| "run (op # ops) w = run ops (apply_operation op w)"

text \<open>The invariant of the three enumerated fields, for a row and for the table.\<close>

definition choices_ok :: "Ticket \<Rightarrow> bool" where
  "choices_ok t \<longleftrightarrow>
     status t \<in> set Ticket_STATUS \<and> type t \<in> set Ticket_TYPE \<and> priority t \<in> set Ticket_PRIORITY"

definition all_choices_ok :: "World \<Rightarrow> bool" where
  "all_choices_ok w \<longleftrightarrow> list_all (\<lambda>(k, t). choices_ok t) (tickets w)"

subsection \<open>The clock\<close>

text \<open>A clock that never runs backwards: no reading is below the one before it.\<close>

definition nondecreasing :: "nat stream \<Rightarrow> bool" where
  "nondecreasing s \<longleftrightarrow> (\<forall>i. s !! i \<le> s !! Suc i)"

subsection \<open>Example data\<close>

text \<open>
  A small help desk on SQLite: three users, one team, one category, three tickets and
  three comments, the clock at 400 and advancing by one at each reading. Tickets 1 and 2
  were last updated at the same instant.
\<close>

definition printer_ticket :: Ticket where
  "printer_ticket =
     \<lparr>author = 1, title = ''Printer broken today'',
      description = ''<p>The printer is out of ink</p>'', ticket_image = None,
      status = ''inprogress'', type = ''incident'', priority = ''high'', created_on = 100,
      updated_on = 200, category = Some 1, assigned_team = Some 5,
      assigned_technician = Some 2\<rparr>"

definition laptop_ticket :: Ticket where
  "laptop_ticket =
     \<lparr>author = 2, title = ''Laptop will not start'',
      description = ''<p>It stays dark when I press the button</p>'', ticket_image = None,
      status = ''open'', type = ''incident'', priority = ''low'', created_on = 150,
      updated_on = 200, category = None, assigned_team = None,
      assigned_technician = None\<rparr>"

definition licence_ticket :: Ticket where
  "licence_ticket =
     \<lparr>author = 2, title = ''New licence needed'',
      description = ''<p>Please order a licence for the editor</p>'', ticket_image = None,
      status = ''onhold'', type = ''request'', priority = ''medium'', created_on = 160,
      updated_on = 300, category = Some 1, assigned_team = Some 5,
      assigned_technician = Some 1\<rparr>"

definition greeting_comment :: Comment where
  "greeting_comment =
     \<lparr>comment_ticket = 1, comment_author = Some 2, body = ''<b>Hi</b>  '',
      comment_created_on = 210\<rparr>"

definition advice_comment :: Comment where
  "advice_comment =
     \<lparr>comment_ticket = 2, comment_author = Some 1, body = ''<p>Hold the button longer</p>'',
      comment_created_on = 220\<rparr>"

definition thanks_comment :: Comment where
  "thanks_comment =
     \<lparr>comment_ticket = 2, comment_author = Some 3, body = ''<p>Thank you</p>'',
      comment_created_on = 230\<rparr>"

definition help_desk :: World where
  "help_desk =
     \<lparr>engine = SQLite,
      users = [(1, \<lparr>team = Some 5\<rparr>), (2, \<lparr>team = None\<rparr>), (3, \<lparr>team = None\<rparr>)],
      teams = [(5, \<lparr>team_name = ''Network''\<rparr>)],
      categories = [(1, \<lparr>category_name = ''Hardware''\<rparr>)],
      tickets = [(1, printer_ticket), (2, laptop_ticket), (3, licence_ticket)],
      comments = [(1, greeting_comment), (2, advice_comment), (3, thanks_comment)],
      ticket_seq = 4,
      clock = siterate Suc 400\<rparr>"

text \<open>
  The same help desk on PostgreSQL after user 1 is deleted: the comment whose author was
  set to null now comes after the later one.
\<close>

definition help_desk_rewritten :: World where
  "help_desk_rewritten =
     \<lparr>engine = PostgreSQL,
      users = [(2, \<lparr>team = None\<rparr>), (3, \<lparr>team = None\<rparr>)],
      teams = [(5, \<lparr>team_name = ''Network''\<rparr>)],
      categories = [(1, \<lparr>category_name = ''Hardware''\<rparr>)],
      tickets = [(2, laptop_ticket), (3, licence_ticket\<lparr>assigned_technician := None\<rparr>)],
      comments = [(3, thanks_comment), (2, advice_comment\<lparr>comment_author := None\<rparr>)],
      ticket_seq = 4,
      clock = siterate Suc 400\<rparr>"

text \<open>
  A valid form with no image, the same form with no category, and one with a short
  description.
\<close>

definition toner_form :: StaffTicketCreationForm where
  "toner_form =
     \<lparr>form_type = ''incident'', form_category = Some 1,
      form_title = ''  Printer broken today '',
      form_description = ''<p>The printer is out of ink</p>'', form_ticket_image = None\<rparr>"

definition uncategorised_form :: StaffTicketCreationForm where
  "uncategorised_form = toner_form\<lparr>form_category := None\<rparr>"

definition terse_form :: StaffTicketCreationForm where
  "terse_form =
     \<lparr>form_type = ''incident'', form_category = Some 1, form_title = ''Printer broken today'',
      form_description = ''<p><b>It is broken</b></p>   '', form_ticket_image = None\<rparr>"

text \<open>
  The ticket that the valid form makes for user 1 in the help desk, where the save reads
  the clock at 400 and at 401.
\<close>

definition toner_ticket :: Ticket where
  "toner_ticket =
     \<lparr>author = 1, title = ''Printer broken today'',
      description = ''<p>The printer is out of ink</p>'', ticket_image = None,
      status = ''open'', type = ''incident'', priority = ''low'', created_on = 400,
      updated_on = 401, category = Some 1, assigned_team = None,
      assigned_technician = None\<rparr>"

section \<open>Properties\<close>

subsection \<open>Stripping tags and whitespace\<close>

lemma strip_tags_subset: "set (strip_tags s) \<subseteq> set s"
proof (induction s rule: strip_tags.induct)
  case 1
  show ?case by simp
next
  case (2 c cs)
  show ?case
  proof (cases "c = CHR ''<'' \<and> CHR ''>'' \<in> set cs")
    case True
    have "set (tl (dropWhile (\<lambda>x. x \<noteq> CHR ''>'') cs)) \<subseteq> set cs"
    proof
      fix x assume "x \<in> set (tl (dropWhile (\<lambda>x. x \<noteq> CHR ''>'') cs))"
      then have "x \<in> set (dropWhile (\<lambda>x. x \<noteq> CHR ''>'') cs)"
        by (cases "dropWhile (\<lambda>x. x \<noteq> CHR ''>'') cs") auto
      then show "x \<in> set cs" by (rule set_dropWhileD)
    qed
    with True 2 show ?thesis by auto
  next
    case False
    with 2 show ?thesis by auto
  qed
qed

lemma strip_tags_no_tag: "\<not> has_tag (strip_tags s)"
proof (induction s rule: strip_tags.induct)
  case 1
  show ?case by simp
next
  case (2 c cs)
  show ?case
  proof (cases "c = CHR ''<'' \<and> CHR ''>'' \<in> set cs")
    case True
    with 2 show ?thesis by simp
  next
    case False
    with 2 strip_tags_subset [of cs] show ?thesis by auto
  qed
qed

lemma strip_tags_text: "CHR ''<'' \<notin> set d \<Longrightarrow> strip_tags (d @ r) = d @ strip_tags r"
  by (induction d) auto

lemma strip_tags_tag:
  assumes "CHR ''>'' \<notin> set t"
  shows "strip_tags (CHR ''<'' # t @ CHR ''>'' # r) = strip_tags r"
proof -
  from assms have "dropWhile (\<lambda>x. x \<noteq> CHR ''>'') (t @ CHR ''>'' # r) = CHR ''>'' # r"
    by (induction t) auto
  then show ?thesis by simp
qed

lemma strip_tags_plain: "\<not> has_tag s \<Longrightarrow> strip_tags s = s"
  by (induction s) auto

lemma length_strip_le: "length (strip s) \<le> length s"
proof -
  have "length (strip s) \<le> length (rev (dropWhile is_space s))"
    unfolding strip_def using length_dropWhile_le [of is_space "rev (dropWhile is_space s)"] by simp
  also have "\<dots> \<le> length s"
    using length_dropWhile_le [of is_space s] by simp
  finally show ?thesis .
qed


lemma strip_tags_before_text:
  assumes "CHR ''<'' \<notin> set r" and "CHR ''>'' \<notin> set r"
  shows "strip_tags (m @ r) = strip_tags m @ r"
proof (induction m rule: strip_tags.induct)
  case 1
  from assms(1) show ?case using strip_tags_text [of r "[]"] by simp
next
  case (2 c cs)
  show ?case
  proof (cases "c = CHR ''<'' \<and> CHR ''>'' \<in> set cs")
    case True
    then have found: "dropWhile (\<lambda>x. x \<noteq> CHR ''>'') cs \<noteq> []"
      by (simp add: dropWhile_eq_Nil_conv)
    from True have "dropWhile (\<lambda>x. x \<noteq> CHR ''>'') (cs @ r) = dropWhile (\<lambda>x. x \<noteq> CHR ''>'') cs @ r"
      by (auto simp add: dropWhile_append)
    with found have "tl (dropWhile (\<lambda>x. x \<noteq> CHR ''>'') (cs @ r))
        = tl (dropWhile (\<lambda>x. x \<noteq> CHR ''>'') cs) @ r"
      by simp
    with True 2 show ?thesis by simp
  next
    case False
    with assms(2) 2 show ?thesis by auto
  qed
qed

lemma strip_parts:
  "\<exists>a b. s = a @ strip s @ b \<and> (\<forall>c \<in> set a. is_space c) \<and> (\<forall>c \<in> set b. is_space c)"
proof -
  define m where "m = dropWhile is_space s"
  have s: "s = takeWhile is_space s @ m"
    by (simp add: m_def)
  have "rev (rev m) = rev (takeWhile is_space (rev m) @ dropWhile is_space (rev m))"
    by (simp only: takeWhile_dropWhile_id)
  also have "\<dots> = rev (dropWhile is_space (rev m)) @ rev (takeWhile is_space (rev m))"
    by (rule rev_append)
  finally have "m = rev (dropWhile is_space (rev m)) @ rev (takeWhile is_space (rev m))"
    by (simp only: rev_rev_ident)
  then have m: "m = strip s @ rev (takeWhile is_space (rev m))"
    by (simp only: strip_def m_def)
  have a: "\<forall>c \<in> set (takeWhile is_space s). is_space c"
    by (auto dest: set_takeWhileD)
  have b: "\<forall>c \<in> set (rev (takeWhile is_space (rev m))). is_space c"
    by (auto dest: set_takeWhileD)
  from s m have "s = takeWhile is_space s @ strip s @ rev (takeWhile is_space (rev m))"
    by simp
  with a b show ?thesis by blast
qed

lemma length_strip_tags_strip: "length (strip_tags (strip s)) \<le> length (strip_tags s)"
proof -
  from strip_parts [of s] obtain a b where s: "s = a @ strip s @ b"
    and a: "\<forall>c \<in> set a. is_space c" and b: "\<forall>c \<in> set b. is_space c"
    by blast
  have not_space: "\<not> is_space CHR ''<''" "\<not> is_space CHR ''>''"
    by (simp_all add: is_space_def)
  from a not_space have a': "CHR ''<'' \<notin> set a" by blast
  from b not_space have b': "CHR ''<'' \<notin> set b" "CHR ''>'' \<notin> set b" by blast+
  have "strip_tags (a @ strip s @ b) = a @ strip_tags (strip s @ b)"
    using a' by (rule strip_tags_text)
  also have "\<dots> = a @ strip_tags (strip s) @ b"
    using b' by (simp add: strip_tags_before_text)
  finally have "length (strip_tags (a @ strip s @ b)) = length a + length (strip_tags (strip s)) + length b"
    by simp
  with s show ?thesis by simp
qed

subsection \<open>The stripped comment body\<close>

text \<open>
  Claim C9. \<open>strip_tags\<close> is a function of the text alone. It removes every tag and keeps
  every character outside the tags, whitespace included: \<^verbatim>\<open><b>Hi</b>\<close> followed by two
  spaces becomes \<^verbatim>\<open>Hi\<close> followed by two spaces; no tag is left in a result; text up to a
  tag is kept as it is, the tag is dropped and the rest is stripped in the same way; a
  text with no tag is returned unchanged. \<open>body_without_tags\<close> is the stripped body of the
  comment: it yields a text and writes nothing, so the stored body stays as it is.
\<close>

theorem strip_tags_removes_tags_keeps_text:
  "strip_tags ''<b>Hi</b>  '' = ''Hi  ''
   \<and> \<not> has_tag (strip_tags s)
   \<and> (CHR ''<'' \<notin> set d \<and> CHR ''>'' \<notin> set t \<longrightarrow>
        strip_tags (d @ CHR ''<'' # t @ CHR ''>'' # r) = d @ strip_tags r)
   \<and> (\<not> has_tag s \<longrightarrow> strip_tags s = s)
   \<and> body_without_tags c = strip_tags (body c)"
  using strip_tags_no_tag [of s] strip_tags_plain [of s]
    strip_tags_text [of d "CHR ''<'' # t @ CHR ''>'' # r"] strip_tags_tag [of t r]
  by (simp add: body_without_tags_def)

theorem strip_tags_removes_tags_keeps_text_witness:
  "CHR ''<'' \<notin> set ''So  '' \<and> CHR ''>'' \<notin> set ''br /''
   \<and> strip_tags (''So  '' @ CHR ''<'' # ''br /'' @ CHR ''>'' # '' long <i>now</i>'') = ''So   long now''
   \<and> \<not> has_tag ''1 > 0 and 2 <'' \<and> strip_tags ''1 > 0 and 2 <'' = ''1 > 0 and 2 <''
   \<and> body_without_tags greeting_comment = ''Hi  ''"
  using strip_tags_removes_tags_keeps_text
    [of "''1 > 0 and 2 <''" "''So  ''" "''br /''" "'' long <i>now</i>''" greeting_comment]
  by (simp add: greeting_comment_def)

subsection \<open>The size limit of images\<close>

text \<open>
  Claim C4. For every image file, \<open>validate_image\<close> fails with \<open>ImageTooLarge\<close> exactly
  when the size of the file exceeds 3,145,728 bytes; a jpg or png of exactly 3,145,728
  bytes passes.
\<close>

theorem validate_image_too_large:
  "(fails_with ImageTooLarge (validate_image f) \<longleftrightarrow> 3145728 < image_size f)
   \<and> (image_size f = 3145728 \<and> image_format f \<in> {''jpg'', ''png''} \<longrightarrow> validate_image f = Inr ())"
  by (simp add: fails_with_def validate_image_def raise_if_any_def validate_image_violations_def
      limit_bytes_def)

theorem validate_image_too_large_witness:
  "validate_image \<lparr>image_format = ''png'', image_size = 3145728\<rparr> = Inr ()
   \<and> fails_with ImageTooLarge (validate_image \<lparr>image_format = ''png'', image_size = 3145729\<rparr>)
   \<and> \<not> fails_with ImageTooLarge (validate_image \<lparr>image_format = ''gif'', image_size = 3145728\<rparr>)"
  using validate_image_too_large [of "\<lparr>image_format = ''png'', image_size = 3145728\<rparr>"]
    validate_image_too_large [of "\<lparr>image_format = ''png'', image_size = 3145729\<rparr>"]
    validate_image_too_large [of "\<lparr>image_format = ''gif'', image_size = 3145728\<rparr>"]
  by simp

subsection \<open>Descriptions that are too short\<close>

text \<open>
  Claim C3. When the description, its tags removed, is shorter than 20 characters,
  \<open>createTicket\<close> fails with \<open>EmptyOrTooShort\<close> and leaves the world as it was: no
  ticket is stored.
\<close>

theorem createTicket_short_description:
  assumes "length (strip_tags (form_description f)) < 20"
  shows "fails_with EmptyOrTooShort (fst (createTicket user f w)) \<and> snd (createTicket user f w) = w"
proof -
  have "length (strip (strip_tags (strip (form_description f))))
      \<le> length (strip_tags (strip (form_description f)))"
    by (rule length_strip_le)
  also have "\<dots> \<le> length (strip_tags (form_description f))"
    by (rule length_strip_tags_strip)
  finally have "length (strip (strip_tags (strip (form_description f)))) < 20"
    using assms by simp
  then have "EmptyOrTooShort \<in> set (form_violations w f)"
    by (simp add: form_violations_def textfield_not_empty_violations_def)
  then show ?thesis
    by (auto simp add: createTicket_def fails_with_def)
qed

theorem createTicket_short_description_witness:
  "length (strip_tags (form_description terse_form)) < 20
   \<and> fst (createTicket 1 terse_form help_desk) = Inl (ValidationError [EmptyOrTooShort])
   \<and> tickets (snd (createTicket 1 terse_form help_desk)) = tickets help_desk"
proof -
  have h: "length (strip_tags (form_description terse_form)) < 20"
    by (simp add: terse_form_def)
  have v: "form_violations help_desk terse_form = [EmptyOrTooShort]"
    by (simp add: terse_form_def form_violations_def choice_violations_def Ticket_TYPE_def
        category_violations_def help_desk_def title_violations_def
        textfield_not_empty_violations_def strip_def is_space_def)
  show ?thesis
    using h createTicket_short_description [OF h, of 1 help_desk]
    by (simp add: createTicket_def v)
qed

subsection \<open>Rows of a table\<close>

lemma map_of_keys_in:
  "map_of (filter (\<lambda>(k, v). k \<in> S) rows) x = (if x \<in> S then map_of rows x else None)"
  by (induction rows) auto

lemma map_of_keys_out:
  "map_of (filter (\<lambda>(k, v). k \<notin> S) rows) x = (if x \<in> S then None else map_of rows x)"
  by (induction rows) auto

lemma map_of_values: "map_of (map (\<lambda>(k, v). (k, f v)) rows) x = map_option f (map_of rows x)"
  by (induction rows) auto

lemma map_of_update_pks:
  "map_of (update_pks e pks f rows) x =
     (if x \<in> set pks then map_option f (map_of rows x) else map_of rows x)"
proof (cases e)
  case SQLite
  have "map_of (map (\<lambda>(k, v). if k \<in> set pks then (k, f v) else (k, v)) rows) x =
     (if x \<in> set pks then map_option f (map_of rows x) else map_of rows x)"
    by (induction rows) auto
  with SQLite show ?thesis by (simp add: update_pks_def)
next
  case PostgreSQL
  then show ?thesis
    by (simp add: update_pks_def map_add_def map_of_keys_in map_of_keys_out map_of_values
        split: option.splits)
qed

lemma keys_update_pks_SQLite: "map fst (update_pks SQLite pks f rows) = map fst rows"
  by (induction rows) (auto simp add: update_pks_def)

lemma keys_update_pks: "mset (map fst (update_pks e pks f rows)) = mset (map fst rows)"
proof (cases e)
  case SQLite
  then have "map fst (update_pks e pks f rows) = map fst rows"
    by (simp only: keys_update_pks_SQLite)
  then show ?thesis by (simp only:)
next
  case PostgreSQL
  have moved: "map fst (map (\<lambda>(k, v). (k, f v)) (filter (\<lambda>(k, v). k \<in> set pks) rows))
      = map fst (filter (\<lambda>(k, v). k \<in> set pks) rows)"
    by (induction rows) auto
  have parts: "mset (map fst (filter (\<lambda>(k, v). k \<notin> set pks) rows))
      + mset (map fst (filter (\<lambda>(k, v). k \<in> set pks) rows)) = mset (map fst rows)"
    by (induction rows) auto
  from PostgreSQL have "map fst (update_pks e pks f rows) =
      map fst (filter (\<lambda>(k, v). k \<notin> set pks) rows)
      @ map fst (map (\<lambda>(k, v). (k, f v)) (filter (\<lambda>(k, v). k \<in> set pks) rows))"
    by (simp add: update_pks_def)
  then have "mset (map fst (update_pks e pks f rows)) =
      mset (map fst (filter (\<lambda>(k, v). k \<notin> set pks) rows))
      + mset (map fst (filter (\<lambda>(k, v). k \<in> set pks) rows))"
    by (simp only: moved mset_append)
  with parts show ?thesis by (simp only:)
qed

lemma map_of_filter_value:
  assumes "distinct (map fst rows)"
  shows "map_of (filter (\<lambda>(k, v). P v) rows) k =
         (case map_of rows k of None \<Rightarrow> None | Some v \<Rightarrow> if P v then Some v else None)"
  using assms
proof (induction rows)
  case Nil
  show ?case by simp
next
  case (Cons r rows)
  obtain k' v' where r: "r = (k', v')" by (cases r)
  from Cons.prems r have fresh: "k' \<notin> fst ` set rows" and d: "distinct (map fst rows)" by auto
  from fresh have none: "map_of rows k' = None" by (simp add: map_of_eq_None_iff)
  show ?case
  proof (cases "k = k'")
    case True
    with none Cons.IH [OF d] r show ?thesis by (auto split: option.splits)
  next
    case False
    with Cons.IH [OF d] r show ?thesis by auto
  qed
qed

lemma keys_where_member:
  assumes "map_of rows x = Some v" and "P v"
  shows "x \<in> set (keys_where P rows)"
proof -
  from assms(1) have "(x, v) \<in> set rows" by (rule map_of_SomeD)
  with assms(2) have "(x, v) \<in> set (filter (\<lambda>(k, v). P v) rows)" by simp
  then have "fst (x, v) \<in> fst ` set (filter (\<lambda>(k, v). P v) rows)" by (rule imageI)
  then show ?thesis by (simp add: keys_where_def)
qed

lemma keys_where_not_member:
  assumes "distinct (map fst rows)" and "map_of rows x = Some v" and "\<not> P v"
  shows "x \<notin> set (keys_where P rows)"
proof
  assume "x \<in> set (keys_where P rows)"
  then obtain v' where in_rows: "(x, v') \<in> set rows" and holds: "P v'"
    by (auto simp add: keys_where_def)
  from assms(1) in_rows have "map_of rows x = Some v'" by (rule map_of_is_SomeI)
  with assms(2) have "v' = v" by simp
  with holds assms(3) show False by simp
qed

subsection \<open>Deleting a team\<close>

text \<open>
  Claim C8. When a team is deleted, a ticket that was assigned to it is still found
  under its key, its \<open>assigned_team\<close> is null and each of its other fields is as before.
\<close>

theorem Team_delete_sets_null:
  assumes "getTicket x w = Inr t" and "assigned_team t = Some T"
  shows "getTicket x (Team_delete T w) = Inr (t\<lparr>assigned_team := None\<rparr>)"
proof -
  from assms(1) have row: "map_of (tickets w) x = Some t"
    by (simp add: getTicket_def split: option.splits)
  with assms(2) have "x \<in> set (keys_where (\<lambda>t. assigned_team t = Some T) (tickets w))"
    by (simp add: keys_where_member)
  with row show ?thesis
    by (simp add: getTicket_def Team_delete_def map_of_update_pks)
qed

theorem Team_delete_sets_null_witness:
  "getTicket 1 help_desk = Inr printer_ticket \<and> assigned_team printer_ticket = Some 5
   \<and> getTicket 1 (Team_delete 5 help_desk) = Inr (printer_ticket\<lparr>assigned_team := None\<rparr>)"
proof -
  have a: "getTicket 1 help_desk = Inr printer_ticket"
    by (simp add: getTicket_def help_desk_def)
  have b: "assigned_team printer_ticket = Some 5"
    by (simp add: printer_ticket_def)
  show ?thesis using a b Team_delete_sets_null [OF a b] by simp
qed

subsection \<open>Deleting a user\<close>

text \<open>
  Claim C10. Primary keys being unique, deleting a user deletes every ticket the user
  authored and every comment on such a ticket, whoever wrote the comment; a comment the
  user wrote on the ticket of another author stays, its author set to null and its other
  fields as before.
\<close>

theorem User_delete_cascades:
  assumes "distinct (map fst (tickets w))" and "distinct (map fst (comments w))"
  shows "(getTicket x w = Inr t \<and> author t = u \<longrightarrow>
            getTicket x (User_delete u w) = Inl NotFoundError)
     \<and> (map_of (comments w) k = Some c \<and> getTicket (comment_ticket c) w = Inr t \<and> author t = u \<longrightarrow>
            map_of (comments (User_delete u w)) k = None)
     \<and> (map_of (comments w) k = Some c \<and> comment_author c = Some u
          \<and> getTicket (comment_ticket c) w = Inr t \<and> author t \<noteq> u \<longrightarrow>
            map_of (comments (User_delete u w)) k = Some (c\<lparr>comment_author := None\<rparr>))"
proof (intro conjI impI)
  assume "getTicket x w = Inr t \<and> author t = u"
  then have "map_of (tickets w) x = Some t" and "author t = u"
    by (simp_all add: getTicket_def split: option.splits)
  then show "getTicket x (User_delete u w) = Inl NotFoundError"
    by (simp add: getTicket_def User_delete_def map_of_update_pks
        map_of_filter_value [OF assms(1), of "\<lambda>t. author t \<noteq> u"])
next
  assume a: "map_of (comments w) k = Some c \<and> getTicket (comment_ticket c) w = Inr t \<and> author t = u"
  then have "map_of (tickets w) (comment_ticket c) = Some t"
    by (simp add: getTicket_def split: option.splits)
  with a have "comment_ticket c \<in> set (authored_by u (tickets w))"
    by (simp add: authored_by_def keys_where_member)
  with a show "map_of (comments (User_delete u w)) k = None"
    by (simp add: User_delete_def map_of_update_pks
        map_of_filter_value [OF assms(2), of "\<lambda>c. comment_ticket c \<notin> set (authored_by u (tickets w))"])
next
  assume a: "map_of (comments w) k = Some c \<and> comment_author c = Some u
          \<and> getTicket (comment_ticket c) w = Inr t \<and> author t \<noteq> u"
  then have "map_of (tickets w) (comment_ticket c) = Some t"
    by (simp add: getTicket_def split: option.splits)
  with a assms(1) have kept: "comment_ticket c \<notin> set (authored_by u (tickets w))"
    by (simp add: authored_by_def keys_where_not_member)
  from a have "k \<in> set (keys_where (\<lambda>c. comment_author c = Some u) (comments w))"
    by (simp add: keys_where_member)
  with a kept show "map_of (comments (User_delete u w)) k = Some (c\<lparr>comment_author := None\<rparr>)"
    by (simp add: User_delete_def map_of_update_pks
        map_of_filter_value [OF assms(2), of "\<lambda>c. comment_ticket c \<notin> set (authored_by u (tickets w))"])
qed

theorem User_delete_cascades_witness:
  "distinct (map fst (tickets help_desk)) \<and> distinct (map fst (comments help_desk))
   \<and> getTicket 1 help_desk = Inr printer_ticket \<and> author printer_ticket = 1
   \<and> getTicket 1 (User_delete 1 help_desk) = Inl NotFoundError
   \<and> map_of (comments help_desk) 1 = Some greeting_comment
   \<and> comment_ticket greeting_comment = 1 \<and> comment_author greeting_comment = Some 2
   \<and> map_of (comments (User_delete 1 help_desk)) 1 = None
   \<and> map_of (comments help_desk) 2 = Some advice_comment
   \<and> comment_author advice_comment = Some 1
   \<and> getTicket (comment_ticket advice_comment) help_desk = Inr laptop_ticket
   \<and> author laptop_ticket \<noteq> 1
   \<and> map_of (comments (User_delete 1 help_desk)) 2 = Some (advice_comment\<lparr>comment_author := None\<rparr>)"
proof -
  have d1: "distinct (map fst (tickets help_desk))" by (simp add: help_desk_def)
  have d2: "distinct (map fst (comments help_desk))" by (simp add: help_desk_def)
  have facts: "getTicket 1 help_desk = Inr printer_ticket" "author printer_ticket = 1"
    "map_of (comments help_desk) 1 = Some greeting_comment"
    "comment_ticket greeting_comment = 1" "comment_author greeting_comment = Some 2"
    "map_of (comments help_desk) 2 = Some advice_comment"
    "comment_author advice_comment = Some 1"
    "getTicket (comment_ticket advice_comment) help_desk = Inr laptop_ticket"
    "author laptop_ticket \<noteq> 1"
    by (simp_all add: help_desk_def getTicket_def printer_ticket_def greeting_comment_def
        advice_comment_def laptop_ticket_def)
  show ?thesis
    using d1 d2 facts
      User_delete_cascades [OF d1 d2, of 1 printer_ticket 1 1 greeting_comment]
      User_delete_cascades [OF d1 d2, of 2 laptop_ticket 1 2 advice_comment]
    by simp
qed

subsection \<open>The enumerated fields under each operation\<close>

lemma rows_ok_update_pks:
  assumes "list_all (\<lambda>(k, t). P t) rows" and "\<And>t. P t \<Longrightarrow> P (f t)"
  shows "list_all (\<lambda>(k, t). P t) (update_pks e pks f rows)"
proof (cases e)
  case SQLite
  from assms have "list_all (\<lambda>(k, t). P t)
      (map (\<lambda>(k, v). if k \<in> set pks then (k, f v) else (k, v)) rows)"
    by (induction rows) (auto split: if_splits)
  with SQLite show ?thesis by (simp add: update_pks_def)
next
  case PostgreSQL
  from assms(1) have "list_all (\<lambda>(k, t). P t) (filter (\<lambda>(k, v). k \<notin> set pks) rows)"
    by (induction rows) auto
  moreover from assms have "list_all (\<lambda>(k, t). P t)
      (map (\<lambda>(k, v). (k, f v)) (filter (\<lambda>(k, v). k \<in> set pks) rows))"
    by (induction rows) auto
  ultimately show ?thesis using PostgreSQL by (simp add: update_pks_def)
qed

lemma rows_ok_filter:
  "list_all P rows \<Longrightarrow> list_all P (filter Q rows)"
  by (induction rows) auto

lemma createTicket_choices:
  assumes "all_choices_ok w"
  shows "all_choices_ok (snd (createTicket user f w))"
proof (cases "form_violations w f = []")
  case False
  with assms show ?thesis by (simp add: createTicket_def)
next
  case True
  then have "choice_violations Ticket_TYPE (form_type f) = []"
    by (simp add: form_violations_def)
  then have ty: "form_type f \<in> set Ticket_TYPE"
    by (simp add: choice_violations_def split: if_splits)
  have "''open'' \<in> set Ticket_STATUS" and "''low'' \<in> set Ticket_PRIORITY"
    by (simp_all add: Ticket_STATUS_def Ticket_PRIORITY_def)
  with assms True ty show ?thesis
    by (simp add: createTicket_def now_def all_choices_ok_def choices_ok_def Let_def)
qed

lemma updateStatus_choices:
  assumes "all_choices_ok w"
  shows "all_choices_ok (snd (updateStatus pk s w))"
proof (cases "map_of (tickets w) pk")
  case None
  with assms show ?thesis by (simp add: updateStatus_def)
next
  case (Some row)
  show ?thesis
  proof (cases "s \<in> set Ticket_STATUS")
    case False
    with assms Some show ?thesis by (simp add: updateStatus_def choice_violations_def)
  next
    case True
    have "list_all (\<lambda>(k, t). choices_ok t)
            (update_pks (engine w) [pk] (\<lambda>r. r\<lparr>status := s, updated_on := shd (clock w)\<rparr>)
               (tickets w))"
      using assms True
      by (intro rows_ok_update_pks) (simp_all add: all_choices_ok_def choices_ok_def)
    with Some True show ?thesis
      by (simp add: updateStatus_def choice_violations_def now_def all_choices_ok_def)
  qed
qed

lemma set_ticket_updated_now_choices:
  assumes "all_choices_ok w"
  shows "all_choices_ok (snd (snd (set_ticket_updated_now inst w)))"
proof (cases "fst inst")
  case None
  with assms show ?thesis
    by (simp add: set_ticket_updated_now_def save_updated_on_def get_time_now_def now_def
        all_choices_ok_def)
next
  case (Some pk)
  have "list_all (\<lambda>(k, t). choices_ok t)
          (update_pks (engine w) [pk] (\<lambda>row. row\<lparr>updated_on := shd (stl (clock w))\<rparr>)
             (tickets w))"
    using assms
    by (intro rows_ok_update_pks) (simp_all add: all_choices_ok_def choices_ok_def)
  with assms Some show ?thesis
    by (simp add: set_ticket_updated_now_def save_updated_on_def get_time_now_def now_def
        all_choices_ok_def Let_def)
qed

lemma Team_delete_choices:
  assumes "all_choices_ok w"
  shows "all_choices_ok (Team_delete pk w)"
proof -
  have "list_all (\<lambda>(k, t). choices_ok t)
          (update_pks (engine w) (keys_where (\<lambda>t. assigned_team t = Some pk) (tickets w))
             (\<lambda>t. t\<lparr>assigned_team := None\<rparr>) (tickets w))"
    using assms
    by (intro rows_ok_update_pks) (simp_all add: all_choices_ok_def choices_ok_def)
  then show ?thesis by (simp add: Team_delete_def all_choices_ok_def)
qed

lemma TicketCategory_delete_choices:
  assumes "all_choices_ok w"
  shows "all_choices_ok (TicketCategory_delete pk w)"
proof -
  have "list_all (\<lambda>(k, t). choices_ok t)
          (update_pks (engine w) (keys_where (\<lambda>t. category t = Some pk) (tickets w))
             (\<lambda>t. t\<lparr>category := None\<rparr>) (tickets w))"
    using assms
    by (intro rows_ok_update_pks) (simp_all add: all_choices_ok_def choices_ok_def)
  then show ?thesis by (simp add: TicketCategory_delete_def all_choices_ok_def)
qed

lemma User_delete_choices:
  assumes "all_choices_ok w"
  shows "all_choices_ok (User_delete pk w)"
proof -
  have "list_all (\<lambda>(k, t). choices_ok t) (filter (\<lambda>(k, t). author t \<noteq> pk) (tickets w))"
    using assms by (simp add: all_choices_ok_def rows_ok_filter)
  then have "list_all (\<lambda>(k, t). choices_ok t)
          (update_pks (engine w) (keys_where (\<lambda>t. assigned_technician t = Some pk) (tickets w))
             (\<lambda>t. t\<lparr>assigned_technician := None\<rparr>)
             (filter (\<lambda>(k, t). author t \<noteq> pk) (tickets w)))"
    by (intro rows_ok_update_pks) (simp_all add: choices_ok_def)
  then show ?thesis by (simp add: User_delete_def all_choices_ok_def)
qed

lemma apply_operation_choices:
  "all_choices_ok w \<Longrightarrow> all_choices_ok (apply_operation op w)"
  by (cases op)
    (simp_all add: createTicket_choices updateStatus_choices set_ticket_updated_now_choices
      Team_delete_choices TicketCategory_delete_choices User_delete_choices)

subsection \<open>The enumerated fields\<close>

text \<open>
  Claim C5. When every stored ticket has its status among \<open>open\<close>, \<open>inprogress\<close>,
  \<open>onhold\<close>, \<open>closed\<close>, its type among \<open>request\<close>, \<open>incident\<close> and its priority among
  \<open>low\<close>, \<open>medium\<close>, \<open>high\<close>, the same holds after any sequence of operations; a
  creation with another type and a status update with another status are refused and
  store nothing.
\<close>

theorem choices_always_enumerated:
  assumes "all_choices_ok w"
  shows "all_choices_ok (run ops w)
     \<and> (form_type f \<notin> set Ticket_TYPE \<longrightarrow>
          fails_with InvalidChoice (fst (createTicket user f w)) \<and> snd (createTicket user f w) = w)
     \<and> (s \<notin> set Ticket_STATUS \<longrightarrow> snd (updateStatus pk s w) = w)"
proof (intro conjI impI)
  from assms show "all_choices_ok (run ops w)"
    by (induction ops arbitrary: w) (simp_all add: apply_operation_choices)
next
  assume "form_type f \<notin> set Ticket_TYPE"
  then have "InvalidChoice \<in> set (form_violations w f)"
    by (simp add: form_violations_def choice_violations_def)
  then show "fails_with InvalidChoice (fst (createTicket user f w))"
    by (auto simp add: createTicket_def fails_with_def)
next
  assume "form_type f \<notin> set Ticket_TYPE"
  then have "InvalidChoice \<in> set (form_violations w f)"
    by (simp add: form_violations_def choice_violations_def)
  then show "snd (createTicket user f w) = w"
    by (auto simp add: createTicket_def)
next
  assume "s \<notin> set Ticket_STATUS"
  then show "snd (updateStatus pk s w) = w"
    by (simp add: updateStatus_def choice_violations_def split: option.splits)
qed




theorem choices_always_enumerated_witness:
  "all_choices_ok help_desk
   \<and> all_choices_ok
        (run [CreateTicket 1 toner_form, UpdateStatus 4 ''closed'', UpdateStatus 1 ''resolved'',
              SetTicketUpdatedNow (Some 2, laptop_ticket\<lparr>status := ''resolved''\<rparr>),
              DeleteTeam 5, DeleteUser 2] help_desk)
   \<and> form_type (toner_form\<lparr>form_type := ''question''\<rparr>) \<notin> set Ticket_TYPE
   \<and> fails_with InvalidChoice (fst (createTicket 1 (toner_form\<lparr>form_type := ''question''\<rparr>) help_desk))
   \<and> snd (createTicket 1 (toner_form\<lparr>form_type := ''question''\<rparr>) help_desk) = help_desk
   \<and> ''resolved'' \<notin> set Ticket_STATUS
   \<and> snd (updateStatus 1 ''resolved'' help_desk) = help_desk"
proof -
  have ok: "all_choices_ok help_desk"
    by (simp add: all_choices_ok_def choices_ok_def help_desk_def printer_ticket_def
        laptop_ticket_def licence_ticket_def Ticket_STATUS_def Ticket_TYPE_def Ticket_PRIORITY_def)
  have bad: "form_type (toner_form\<lparr>form_type := ''question''\<rparr>) \<notin> set Ticket_TYPE"
    "''resolved'' \<notin> set Ticket_STATUS"
    by (simp_all add: Ticket_TYPE_def Ticket_STATUS_def)
  show ?thesis
    using ok bad
      choices_always_enumerated [OF ok,
        of "[CreateTicket 1 toner_form, UpdateStatus 4 ''closed'', UpdateStatus 1 ''resolved'',
              SetTicketUpdatedNow (Some 2, laptop_ticket\<lparr>status := ''resolved''\<rparr>),
              DeleteTeam 5, DeleteUser 2]"
           "toner_form\<lparr>form_type := ''question''\<rparr>" 1 "''resolved''" 1]
    by simp
qed

subsection \<open>Readings of the clock and the timestamp update\<close>

lemma nondecreasing_first: "nondecreasing s \<Longrightarrow> shd s \<le> shd (stl s)"
proof -
  assume "nondecreasing s"
  then have "s !! 0 \<le> s !! Suc 0" unfolding nondecreasing_def by blast
  then show ?thesis by simp
qed

lemma nondecreasing_second_fourth:
  assumes "nondecreasing s"
  shows "shd (stl s) \<le> shd (stl (stl (stl s)))"
proof -
  from assms have "s !! Suc 0 \<le> s !! Suc (Suc 0)" and "s !! Suc (Suc 0) \<le> s !! Suc (Suc (Suc 0))"
    unfolding nondecreasing_def by blast+
  then show ?thesis by simp
qed

lemma nondecreasing_siterate_Suc: "nondecreasing (siterate Suc n)"
  by (simp add: nondecreasing_def)

lemma set_ticket_updated_now_success:
  assumes "set_ticket_updated_now inst w = (Inr (), inst1, w1)"
  shows "\<exists>pk row. fst inst = Some pk \<and> map_of (tickets w) pk = Some row
     \<and> inst1 = (Some pk, (snd inst)\<lparr>updated_on := shd (stl (clock w))\<rparr>)
     \<and> w1 = w\<lparr>clock := stl (stl (clock w)),
              tickets := update_pks (engine w) [pk]
                (\<lambda>row. row\<lparr>updated_on := shd (stl (clock w))\<rparr>) (tickets w)\<rparr>"
proof (cases "fst inst")
  case None
  with assms show ?thesis
    by (simp add: set_ticket_updated_now_def save_updated_on_def get_time_now_def now_def)
next
  case (Some pk)
  show ?thesis
  proof (cases "map_of (tickets w) pk")
    case None
    with Some assms show ?thesis
      by (simp add: set_ticket_updated_now_def save_updated_on_def get_time_now_def now_def Let_def)
  next
    case (Some row)
    with \<open>fst inst = Some pk\<close> assms show ?thesis
      by (auto simp add: set_ticket_updated_now_def save_updated_on_def get_time_now_def now_def
          Let_def)
  qed
qed

subsection \<open>Touching the timestamp\<close>

text \<open>
  Claim C6. A successful \<open>set_ticket_updated_now\<close> writes the \<open>updated_on\<close> column of the
  row of the instance and nothing else: that row keeps its other fields, whatever the
  instance holds in memory, every other ticket and every other table is as before, no
  ticket is added or removed (on SQLite the rows also keep their order), and
  \<open>updated_on\<close> is the reading of the clock taken by the save. Applying it again to the
  instance succeeds and has the same effect with the later reading; with a clock that
  does not run backwards, \<open>updated_on\<close> does not go back.
\<close>

theorem set_ticket_updated_now_frame:
  assumes "set_ticket_updated_now inst w = (Inr (), inst1, w1)"
    and "set_ticket_updated_now inst1 w1 = (r2, inst2, w2)"
  shows "\<exists>pk row. fst inst = Some pk \<and> map_of (tickets w) pk = Some row
     \<and> map_of (tickets w1) pk = Some (row\<lparr>updated_on := shd (stl (clock w))\<rparr>)
     \<and> (\<forall>k. k \<noteq> pk \<longrightarrow> map_of (tickets w1) k = map_of (tickets w) k)
     \<and> mset (map fst (tickets w1)) = mset (map fst (tickets w))
     \<and> (engine w = SQLite \<longrightarrow> map fst (tickets w1) = map fst (tickets w))
     \<and> users w1 = users w \<and> teams w1 = teams w \<and> categories w1 = categories w
     \<and> comments w1 = comments w \<and> ticket_seq w1 = ticket_seq w
     \<and> r2 = Inr ()
     \<and> map_of (tickets w2) pk = Some (row\<lparr>updated_on := shd (stl (stl (stl (clock w))))\<rparr>)
     \<and> (\<forall>k. k \<noteq> pk \<longrightarrow> map_of (tickets w2) k = map_of (tickets w) k)
     \<and> mset (map fst (tickets w2)) = mset (map fst (tickets w))
     \<and> (engine w = SQLite \<longrightarrow> map fst (tickets w2) = map fst (tickets w))
     \<and> users w2 = users w \<and> teams w2 = teams w \<and> categories w2 = categories w
     \<and> comments w2 = comments w \<and> ticket_seq w2 = ticket_seq w
     \<and> (nondecreasing (clock w) \<longrightarrow>
          (\<forall>t1 t2. getTicket pk w1 = Inr t1 \<and> getTicket pk w2 = Inr t2 \<longrightarrow>
             updated_on t1 \<le> updated_on t2))"
proof -
  from set_ticket_updated_now_success [OF assms(1)]
  obtain pk row where pk: "fst inst = Some pk" and row: "map_of (tickets w) pk = Some row"
    and inst1: "inst1 = (Some pk, (snd inst)\<lparr>updated_on := shd (stl (clock w))\<rparr>)"
    and w1: "w1 = w\<lparr>clock := stl (stl (clock w)),
              tickets := update_pks (engine w) [pk]
                (\<lambda>row. row\<lparr>updated_on := shd (stl (clock w))\<rparr>) (tickets w)\<rparr>"
    by blast
  have row1: "map_of (tickets w1) pk = Some (row\<lparr>updated_on := shd (stl (clock w))\<rparr>)"
    using row by (simp add: w1 map_of_update_pks)
  have others1: "\<forall>k. k \<noteq> pk \<longrightarrow> map_of (tickets w1) k = map_of (tickets w) k"
    by (simp add: w1 map_of_update_pks)
  have "tickets w1 = update_pks (engine w) [pk]
      (\<lambda>row. row\<lparr>updated_on := shd (stl (clock w))\<rparr>) (tickets w)"
    by (simp add: w1)
  then have keys1: "mset (map fst (tickets w1)) = mset (map fst (tickets w))"
    by (simp only: keys_update_pks)
  have order1: "engine w = SQLite \<longrightarrow> map fst (tickets w1) = map fst (tickets w)"
    by (simp add: w1 keys_update_pks_SQLite)
  have frame1: "users w1 = users w" "teams w1 = teams w" "categories w1 = categories w"
    "comments w1 = comments w" "ticket_seq w1 = ticket_seq w" "clock w1 = stl (stl (clock w))"
    "engine w1 = engine w"
    by (simp_all add: w1)
  have again: "set_ticket_updated_now inst1 w1 =
      (Inr (), (Some pk, (snd inst1)\<lparr>updated_on := shd (stl (clock w1))\<rparr>),
       w1\<lparr>clock := stl (stl (clock w1)),
          tickets := update_pks (engine w1) [pk]
            (\<lambda>row. row\<lparr>updated_on := shd (stl (clock w1))\<rparr>) (tickets w1)\<rparr>)"
    using row1
    by (simp add: inst1 set_ticket_updated_now_def save_updated_on_def get_time_now_def now_def
        Let_def)
  with assms(2) have r2: "r2 = Inr ()"
    and w2: "w2 = w1\<lparr>clock := stl (stl (clock w1)),
          tickets := update_pks (engine w1) [pk]
            (\<lambda>row. row\<lparr>updated_on := shd (stl (clock w1))\<rparr>) (tickets w1)\<rparr>"
    by simp_all
  have row2: "map_of (tickets w2) pk = Some (row\<lparr>updated_on := shd (stl (stl (stl (clock w))))\<rparr>)"
    using row1 by (simp add: w2 map_of_update_pks frame1)
  have others2: "\<forall>k. k \<noteq> pk \<longrightarrow> map_of (tickets w2) k = map_of (tickets w) k"
    using others1 by (simp add: w2 map_of_update_pks)
  have "tickets w2 = update_pks (engine w1) [pk]
      (\<lambda>row. row\<lparr>updated_on := shd (stl (clock w1))\<rparr>) (tickets w1)"
    by (simp add: w2)
  then have "mset (map fst (tickets w2)) = mset (map fst (tickets w1))"
    by (simp only: keys_update_pks)
  with keys1 have keys2: "mset (map fst (tickets w2)) = mset (map fst (tickets w))"
    by (simp only:)
  have order2: "engine w = SQLite \<longrightarrow> map fst (tickets w2) = map fst (tickets w)"
    using order1 frame1 by (simp add: w2 keys_update_pks_SQLite)
  have frame2: "users w2 = users w" "teams w2 = teams w" "categories w2 = categories w"
    "comments w2 = comments w" "ticket_seq w2 = ticket_seq w"
    using frame1 by (simp_all add: w2)
  have later: "nondecreasing (clock w) \<longrightarrow>
          (\<forall>t1 t2. getTicket pk w1 = Inr t1 \<and> getTicket pk w2 = Inr t2 \<longrightarrow>
             updated_on t1 \<le> updated_on t2)"
    using row1 row2 by (auto simp add: getTicket_def nondecreasing_second_fourth)
  from pk row row1 others1 keys1 order1 frame1 r2 row2 others2 keys2 order2 frame2 later
  show ?thesis by blast
qed


theorem set_ticket_updated_now_frame_witness:
  "fst (set_ticket_updated_now (Some 2, laptop_ticket\<lparr>status := ''closed''\<rparr>) help_desk) = Inr ()
   \<and> getTicket 2 (snd (snd (set_ticket_updated_now (Some 2, laptop_ticket\<lparr>status := ''closed''\<rparr>)
        help_desk))) = Inr (laptop_ticket\<lparr>updated_on := 401\<rparr>)
   \<and> nondecreasing (clock help_desk)
   \<and> getTicket 2
        (snd (snd (set_ticket_updated_now
           (fst (snd (set_ticket_updated_now (Some 2, laptop_ticket\<lparr>status := ''closed''\<rparr>)
              help_desk)))
           (snd (snd (set_ticket_updated_now (Some 2, laptop_ticket\<lparr>status := ''closed''\<rparr>)
              help_desk))))))
       = Inr (laptop_ticket\<lparr>updated_on := 403\<rparr>)"
proof -
  define r1 where "r1 = set_ticket_updated_now (Some 2, laptop_ticket\<lparr>status := ''closed''\<rparr>) help_desk"
  define r2 where "r2 = set_ticket_updated_now (fst (snd r1)) (snd (snd r1))"
  have ok: "fst r1 = Inr ()"
    by (simp add: r1_def set_ticket_updated_now_def save_updated_on_def get_time_now_def now_def
        help_desk_def Let_def)
  then have h1: "set_ticket_updated_now (Some 2, laptop_ticket\<lparr>status := ''closed''\<rparr>) help_desk
      = (Inr (), fst (snd r1), snd (snd r1))"
    unfolding r1_def by (metis prod.collapse)
  have h2: "set_ticket_updated_now (fst (snd r1)) (snd (snd r1)) = (fst r2, fst (snd r2), snd (snd r2))"
    unfolding r2_def by simp
  have mono: "nondecreasing (clock help_desk)"
    by (simp add: help_desk_def nondecreasing_siterate_Suc)
  have row: "map_of (tickets help_desk) 2 = Some laptop_ticket"
    by (simp add: help_desk_def)
  have readings: "shd (stl (clock help_desk)) = 401" "shd (stl (stl (stl (clock help_desk)))) = 403"
    by (simp_all add: help_desk_def)
  from set_ticket_updated_now_frame [OF h1 h2] row readings
  have "getTicket 2 (snd (snd r1)) = Inr (laptop_ticket\<lparr>updated_on := 401\<rparr>)"
    and "getTicket 2 (snd (snd r2)) = Inr (laptop_ticket\<lparr>updated_on := 403\<rparr>)"
    by (auto simp add: getTicket_def)
  with ok mono show ?thesis by (simp add: r1_def r2_def)
qed

subsection \<open>The ticket list is sorted\<close>

lemma listTickets_sorted:
  "sorted_wrt (\<lambda>a b. updated_on (snd b) \<le> updated_on (snd a)) (listTickets w)"
proof -
  have "sorted (map (\<lambda>(k, t). - int (updated_on t)) (listTickets w))"
    unfolding listTickets_def by (rule sorted_sort_key)
  then have "sorted_wrt (\<lambda>a b. (case a of (k, t) \<Rightarrow> - int (updated_on t))
                              \<le> (case b of (k, t) \<Rightarrow> - int (updated_on t))) (listTickets w)"
    by (simp add: sorted_wrt_map)
  then show ?thesis
    by (rule sorted_wrt_mono_rel [rotated]) (auto split: prod.splits)
qed

subsection \<open>Listing tickets\<close>

text \<open>
  Claim C1, as the code has it. \<open>listTickets\<close> returns every ticket once, and a ticket
  with a later \<open>updated_on\<close> comes before one with an earlier. The ordering names no key
  after \<open>updated_on\<close>: tickets updated at the same instant keep the order in which the
  database holds them, which need not be by descending key. In the help desk, tickets 1
  and 2 were updated at the same instant and ticket 1 is listed first.
\<close>

theorem listTickets_latest_first:
  "mset (listTickets w) = mset (tickets w)
   \<and> (i < length (listTickets w) \<and> j < length (listTickets w)
        \<and> updated_on (snd (listTickets w ! j)) < updated_on (snd (listTickets w ! i))
        \<longrightarrow> i < j)
   \<and> filter (\<lambda>r. updated_on (snd r) = u) (listTickets w)
        = filter (\<lambda>r. updated_on (snd r) = u) (tickets w)"
proof (intro conjI impI)
  show "mset (listTickets w) = mset (tickets w)"
    by (simp add: listTickets_def)
next
  assume a: "i < length (listTickets w) \<and> j < length (listTickets w)
        \<and> updated_on (snd (listTickets w ! j)) < updated_on (snd (listTickets w ! i))"
  show "i < j"
  proof (rule ccontr)
    assume "\<not> i < j"
    with a have "j < i" by (cases "i = j") auto
    with a listTickets_sorted [of w]
    have "updated_on (snd (listTickets w ! i)) \<le> updated_on (snd (listTickets w ! j))"
      by (simp add: sorted_wrt_iff_nth_less)
    with a show False by simp
  qed
next
  have "filter (\<lambda>r. (case r of (k, t) \<Rightarrow> - int (updated_on t)) = - int u) (listTickets w)
        = filter (\<lambda>r. (case r of (k, t) \<Rightarrow> - int (updated_on t)) = - int u) (tickets w)"
    unfolding listTickets_def by (rule sort_key_stable)
  moreover have "(\<lambda>r. (case r of (k, t) \<Rightarrow> - int (updated_on t)) = - int u)
        = (\<lambda>r::nat \<times> Ticket. updated_on (snd r) = u)"
    by (auto split: prod.splits)
  ultimately show "filter (\<lambda>r. updated_on (snd r) = u) (listTickets w)
        = filter (\<lambda>r. updated_on (snd r) = u) (tickets w)"
    by simp
qed

theorem listTickets_latest_first_witness:
  "(0::nat) < length (listTickets help_desk) \<and> (1::nat) < length (listTickets help_desk)
   \<and> updated_on (snd (listTickets help_desk ! 1)) < updated_on (snd (listTickets help_desk ! 0))
   \<and> map fst (listTickets help_desk) = [3, 1, 2]
   \<and> filter (\<lambda>r. updated_on (snd r) = 200) (listTickets help_desk)
        = [(1, printer_ticket), (2, laptop_ticket)]"
proof -
  have l: "listTickets help_desk = [(3, licence_ticket), (1, printer_ticket), (2, laptop_ticket)]"
    by (simp add: listTickets_def help_desk_def licence_ticket_def printer_ticket_def
        laptop_ticket_def)
  have u: "updated_on licence_ticket = 300" "updated_on printer_ticket = 200"
    "updated_on laptop_ticket = 200"
    by (simp_all add: licence_ticket_def printer_ticket_def laptop_ticket_def)
  have t: "tickets help_desk = [(1, printer_ticket), (2, laptop_ticket), (3, licence_ticket)]"
    by (simp add: help_desk_def)
  show ?thesis
    using listTickets_latest_first [of help_desk 0 1 200]
    by (simp add: l u t)
qed

theorem listTickets_tie_counterexample:
  "listTickets help_desk = [(3, licence_ticket), (1, printer_ticket), (2, laptop_ticket)]
   \<and> updated_on printer_ticket = updated_on laptop_ticket \<and> (1::nat) < 2"
  by (simp add: listTickets_def help_desk_def licence_ticket_def printer_ticket_def
      laptop_ticket_def)

subsection \<open>The help desk after a deletion\<close>

lemma User_delete_rewrites:
  "User_delete 1 (help_desk\<lparr>engine := PostgreSQL\<rparr>) = help_desk_rewritten"
  by (simp add: User_delete_def help_desk_def help_desk_rewritten_def update_pks_def
      keys_where_def authored_by_def delete_row_def printer_ticket_def laptop_ticket_def
      licence_ticket_def greeting_comment_def advice_comment_def thanks_comment_def)

subsection \<open>Listing comments\<close>

text \<open>
  Claim C2, as the code has it. \<open>listComments\<close> returns the comments of the ticket, and
  only those, in the order in which the database holds them: \<open>Comment\<close> declares no
  ordering. The result is chronological when the stored order is. In the help desk on
  PostgreSQL after user 1 is deleted, the earlier comment was rewritten behind the later
  one, and the later comment is listed first.
\<close>

theorem listComments_stored_order:
  "set (listComments x w) = {(k, c). (k, c) \<in> set (comments w) \<and> comment_ticket c = x}
   \<and> subseq (listComments x w) (comments w)
   \<and> (sorted_wrt (\<lambda>a b. comment_created_on (snd a) \<le> comment_created_on (snd b)) (comments w)
        \<longrightarrow> sorted_wrt (\<lambda>a b. comment_created_on (snd a) \<le> comment_created_on (snd b))
              (listComments x w))"
  by (auto simp add: listComments_def sorted_wrt_filter)

theorem listComments_stored_order_witness:
  "sorted_wrt (\<lambda>a b. comment_created_on (snd a) \<le> comment_created_on (snd b)) (comments help_desk)
   \<and> listComments 2 help_desk = [(2, advice_comment), (3, thanks_comment)]
   \<and> sorted_wrt (\<lambda>a b. comment_created_on (snd a) \<le> comment_created_on (snd b))
        (listComments 2 help_desk)"
proof -
  have s: "sorted_wrt (\<lambda>a b. comment_created_on (snd a) \<le> comment_created_on (snd b))
      (comments help_desk)"
    by (simp add: help_desk_def greeting_comment_def advice_comment_def thanks_comment_def)
  have l: "listComments 2 help_desk = [(2, advice_comment), (3, thanks_comment)]"
    by (simp add: listComments_def help_desk_def greeting_comment_def advice_comment_def
        thanks_comment_def)
  from s l listComments_stored_order [of 2 help_desk] show ?thesis by simp
qed

theorem listComments_order_counterexample:
  "listComments 2 help_desk_rewritten
     = [(3, thanks_comment), (2, advice_comment\<lparr>comment_author := None\<rparr>)]
   \<and> comment_created_on thanks_comment = 230
   \<and> comment_created_on (advice_comment\<lparr>comment_author := None\<rparr>) = 220"
  by (simp add: listComments_def help_desk_rewritten_def thanks_comment_def advice_comment_def)

subsection \<open>A creation that succeeds\<close>

lemma createTicket_success:
  assumes "form_violations w f = []" and "map_of (users w) user \<noteq> None"
  shows "fst (createTicket user f w) =
     Inr (ticket_seq w,
          \<lparr>author = user, title = strip (form_title f),
           description = strip (form_description f),
           ticket_image = form_ticket_image f, status = ''open'', type = form_type f,
           priority = ''low'', created_on = shd (clock w), updated_on = shd (stl (clock w)),
           category = form_category f, assigned_team = None, assigned_technician = None\<rparr>)"
  using assms by (auto simp add: createTicket_def now_def Let_def)

subsection \<open>Defaults and timestamps of a new ticket\<close>

text \<open>
  Claim C7, as the code has it. A creation supplies no status and no priority, and it
  must supply a category: one with none is refused with \<open>Required\<close> and stores nothing.
  A ticket that is created has status \<open>open\<close>, priority \<open>low\<close> and the category of the
  form, and is added to the table. Its \<open>created_on\<close> and \<open>updated_on\<close> are two successive
  readings of the clock, \<open>created_on\<close> the first: with a clock that does not run
  backwards \<open>created_on\<close> is at most \<open>updated_on\<close>, and the two are equal only when the
  clock did not advance between the readings. In the help desk the readings are 400 and
  401.
\<close>

theorem createTicket_defaults:
  assumes "createTicket user f w = (Inr (pk, t), w')"
  shows "status t = ''open'' \<and> priority t = ''low''
     \<and> category t = form_category f \<and> category t \<noteq> None
     \<and> created_on t = shd (clock w) \<and> updated_on t = shd (stl (clock w))
     \<and> (nondecreasing (clock w) \<longrightarrow> created_on t \<le> updated_on t)
     \<and> tickets w' = tickets w @ [(pk, t)]
     \<and> (form_category g = None \<longrightarrow>
          fails_with Required (fst (createTicket user g w)) \<and> snd (createTicket user g w) = w)"
proof -
  from assms have valid: "form_violations w f = []"
    by (auto simp add: createTicket_def split: if_splits)
  then have "category_violations w (form_category f) = []"
    by (simp add: form_violations_def)
  then have given: "form_category f \<noteq> None"
    by (auto simp add: category_violations_def split: option.splits)
  from assms valid have known: "map_of (users w) user \<noteq> None"
    by (auto simp add: createTicket_def now_def Let_def split: if_splits)
  from assms valid known
  have t: "t = \<lparr>author = user, title = strip (form_title f),
                description = strip (form_description f),
                ticket_image = form_ticket_image f, status = ''open'', type = form_type f,
                priority = ''low'', created_on = shd (clock w), updated_on = shd (stl (clock w)),
                category = form_category f, assigned_team = None, assigned_technician = None\<rparr>"
    and w': "tickets w' = tickets w @ [(pk, t)]"
    by (auto simp add: createTicket_def now_def Let_def)
  have refused: "form_category g = None \<longrightarrow>
          fails_with Required (fst (createTicket user g w)) \<and> snd (createTicket user g w) = w"
  proof
    assume "form_category g = None"
    then have "Required \<in> set (form_violations w g)"
      by (simp add: form_violations_def category_violations_def)
    then show "fails_with Required (fst (createTicket user g w)) \<and> snd (createTicket user g w) = w"
      by (auto simp add: createTicket_def fails_with_def)
  qed
  from t w' given refused show ?thesis
    by (simp add: nondecreasing_first)
qed

theorem createTicket_defaults_witness:
  "fst (createTicket 1 toner_form help_desk) = Inr (4, toner_ticket)
   \<and> nondecreasing (clock help_desk)
   \<and> status toner_ticket = ''open'' \<and> priority toner_ticket = ''low''
   \<and> category toner_ticket = Some 1 \<and> created_on toner_ticket \<le> updated_on toner_ticket
   \<and> form_category uncategorised_form = None
   \<and> fails_with Required (fst (createTicket 1 uncategorised_form help_desk))
   \<and> snd (createTicket 1 uncategorised_form help_desk) = help_desk"
proof -
  have v: "form_violations help_desk toner_form = []"
    by (simp add: toner_form_def form_violations_def choice_violations_def Ticket_TYPE_def
        category_violations_def help_desk_def title_violations_def
        textfield_not_empty_violations_def strip_def is_space_def)
  have known: "map_of (users help_desk) 1 \<noteq> None"
    by (simp add: help_desk_def)
  have r: "fst (createTicket 1 toner_form help_desk) = Inr (4, toner_ticket)"
    using createTicket_success [OF v known]
    by (simp add: help_desk_def toner_form_def toner_ticket_def strip_def is_space_def)
  then have h: "createTicket 1 toner_form help_desk
      = (Inr (4, toner_ticket), snd (createTicket 1 toner_form help_desk))"
    by (metis prod.collapse)
  have c: "form_category uncategorised_form = None"
    by (simp add: uncategorised_form_def)
  have m: "nondecreasing (clock help_desk)"
    by (simp add: help_desk_def nondecreasing_siterate_Suc)
  have k: "category toner_ticket = Some 1" by (simp add: toner_ticket_def)
  from r c m k createTicket_defaults [OF h, of uncategorised_form] show ?thesis by simp
qed

theorem createTicket_stamps_counterexample:
  "form_category uncategorised_form = None
   \<and> fst (createTicket 1 uncategorised_form help_desk) = Inl (ValidationError [Required])
   \<and> fst (createTicket 1 toner_form help_desk) = Inr (4, toner_ticket)
   \<and> category toner_ticket = Some 1
   \<and> created_on toner_ticket = 400 \<and> updated_on toner_ticket = 401"
proof -
  have u: "form_violations help_desk uncategorised_form = [Required]"
    by (simp add: uncategorised_form_def toner_form_def form_violations_def
        choice_violations_def Ticket_TYPE_def category_violations_def title_violations_def
        textfield_not_empty_violations_def strip_def is_space_def)
  have v: "form_violations help_desk toner_form = []"
    by (simp add: toner_form_def form_violations_def choice_violations_def Ticket_TYPE_def
        category_violations_def help_desk_def title_violations_def
        textfield_not_empty_violations_def strip_def is_space_def)
  have known: "map_of (users help_desk) 1 \<noteq> None"
    by (simp add: help_desk_def)
  have r: "fst (createTicket 1 toner_form help_desk) = Inr (4, toner_ticket)"
    using createTicket_success [OF v known]
    by (simp add: help_desk_def toner_form_def toner_ticket_def strip_def is_space_def)
  have f: "fst (createTicket 1 uncategorised_form help_desk) = Inl (ValidationError [Required])"
    by (simp add: createTicket_def u)
  from r f show ?thesis
    by (simp add: uncategorised_form_def toner_ticket_def)
qed

end
